theory Spec2Isabelle
  imports Main "HOL-Library.Sublist"
begin

section \<open>Boyer-Moore string search (bad character rule): the program\<close>

text \<open>
  The embedding follows \<^verbatim>\<open>src/Boyer_Moore/main.cpp\<close>. A \<^verbatim>\<open>std::string\<close> is a
  \<^typ>\<open>string\<close> (a list of 8-bit characters), the class \<^verbatim>\<open>StringFinder\<close> is a record of
  its three members, and the array \<^verbatim>\<open>int m_lastOccurrences[256]\<close> is a list of integers
  that holds 256 entries. The C++ \<^verbatim>\<open>int\<close> variables are integers, and the conversion of
  a size to an \<^verbatim>\<open>int\<close> is written out (\<open>size_to_int\<close> below).

  An access outside an array or a string is undefined behaviour in C++. The model makes
  it a value: every read and write checks its index and a run that leaves the bounds
  stops with an error.
\<close>

datatype error = TableOutOfBounds | StringOutOfBounds

record StringFinder =
  m_text :: string
  m_pattern :: string
  m_lastOccurrences :: "int list"

definition POSSIBLE_CHARACTERS :: int where
  "POSSIBLE_CHARACTERS = 256"

text \<open>
  The elements of a \<^verbatim>\<open>std::string\<close> are of type \<^verbatim>\<open>char\<close>. Where a \<^verbatim>\<open>char\<close> is used as a
  subscript (\<^verbatim>\<open>m_lastOccurrences[m_pattern[i]]\<close>) it is promoted to \<^verbatim>\<open>int\<close>. Plain \<^verbatim>\<open>char\<close>
  is a signed 8-bit type on x86-64 and on Apple's arm64, the targets of the Xcode project
  the file comes from: the bytes 0x80 to 0xFF are the values -128 to -1.
\<close>

definition char_to_int :: "char \<Rightarrow> int" where
  "char_to_int c = (if of_char c < (128 :: int) then of_char c else of_char c - 256)"

text \<open>
  \<^verbatim>\<open>s[i]\<close> on a \<^verbatim>\<open>std::string\<close>: the characters at the positions below \<^verbatim>\<open>s.size()\<close>, the
  null character at the position \<^verbatim>\<open>s.size()\<close>, undefined beyond.
\<close>

definition string_at :: "string \<Rightarrow> int \<Rightarrow> error + char" where
  "string_at s i =
     (if 0 \<le> i \<and> i < int (length s) then Inr (s ! nat i)
      else if i = int (length s) then Inr (CHR 0x00)
      else Inl StringOutOfBounds)"

definition table_read :: "int list \<Rightarrow> int \<Rightarrow> error + int" where
  "table_read tbl i =
     (if 0 \<le> i \<and> i < 256 then Inr (tbl ! nat i) else Inl TableOutOfBounds)"

definition table_write :: "int list \<Rightarrow> int \<Rightarrow> int \<Rightarrow> error + int list" where
  "table_write tbl i v =
     (if 0 \<le> i \<and> i < 256 then Inr (tbl[nat i := v]) else Inl TableOutOfBounds)"

subsection \<open>badCharacterPreprocessing\<close>

text \<open>
  The first loop: \<^verbatim>\<open>for (int i = 0; i < POSSIBLE_CHARACTERS; i++) m_lastOccurrences[i] = -1;\<close>
\<close>

function fill_table :: "int \<Rightarrow> int list \<Rightarrow> error + int list" where
  "fill_table i tbl =
     (if i < POSSIBLE_CHARACTERS then
        (case table_write tbl i (- 1) of
           Inl e \<Rightarrow> Inl e
         | Inr tbl' \<Rightarrow> fill_table (i + 1) tbl')
      else Inr tbl)"
  by pat_completeness auto
termination
  by (relation "measure (\<lambda>(i, tbl). nat (POSSIBLE_CHARACTERS - i))") auto

text \<open>
  The second loop:
  \<^verbatim>\<open>for (int i = 0; i < m_pattern.size(); i++) m_lastOccurrences[ m_pattern[i] ] = i;\<close>
  The comparison is made in the unsigned type of \<^verbatim>\<open>size()\<close>, where a negative \<^verbatim>\<open>i\<close> is
  a huge value.
\<close>

function record_occurrences :: "string \<Rightarrow> int \<Rightarrow> int list \<Rightarrow> error + int list" where
  "record_occurrences pat i tbl =
     (if 0 \<le> i \<and> i < int (length pat) then
        (case string_at pat i of
           Inl e \<Rightarrow> Inl e
         | Inr c \<Rightarrow>
             (case table_write tbl (char_to_int c) i of
                Inl e \<Rightarrow> Inl e
              | Inr tbl' \<Rightarrow> record_occurrences pat (i + 1) tbl'))
      else Inr tbl)"
  by pat_completeness auto
termination
  by (relation "measure (\<lambda>(pat, i, tbl). nat (int (length pat) - i))") auto

definition badCharacterPreprocessing :: "StringFinder \<Rightarrow> error + StringFinder" where
  "badCharacterPreprocessing sf =
     (case fill_table 0 (m_lastOccurrences sf) of
        Inl e \<Rightarrow> Inl e
      | Inr filled \<Rightarrow>
          (case record_occurrences (m_pattern sf) 0 filled of
             Inl e \<Rightarrow> Inl e
           | Inr tbl \<Rightarrow> Inr (sf\<lparr>m_lastOccurrences := tbl\<rparr>)))"

text \<open>\<^verbatim>\<open>goodSuffixPreprocessing\<close> has an empty body.\<close>

definition goodSuffixPreprocessing :: "StringFinder \<Rightarrow> StringFinder" where
  "goodSuffixPreprocessing sf = sf"

subsection \<open>The constructor\<close>

text \<open>
  \<^verbatim>\<open>StringFinder(string text, string pattern)\<close> copies the two strings and runs the
  preprocessing. The array starts with indeterminate contents, here 256 zeros; the first
  loop overwrites every entry (lemma \<open>fill_table_any\<close> below).
\<close>

definition new_StringFinder :: "string \<Rightarrow> string \<Rightarrow> error + StringFinder" where
  "new_StringFinder text pattern =
     (case badCharacterPreprocessing
             \<lparr>m_text = text, m_pattern = pattern, m_lastOccurrences = replicate 256 0\<rparr> of
        Inl e \<Rightarrow> Inl e
      | Inr sf \<Rightarrow> Inr (goodSuffixPreprocessing sf))"

subsection \<open>search\<close>

text \<open>
  \<^verbatim>\<open>int textSize = m_text.size();\<close> converts the unsigned 64-bit size to the 32-bit
  \<^verbatim>\<open>int\<close>: the low 32 bits of the size, read in two's complement. A size below \<open>2^31\<close>
  is kept; the size \<open>2^31 + 1\<close> becomes \<open>-2147483647\<close> and the size \<open>2^32 + 1\<close> becomes 1.
\<close>

definition size_to_int :: "nat \<Rightarrow> int" where
  "size_to_int n =
     (let low = int n mod 2 ^ 32
      in if low < 2 ^ 31 then low else low - 2 ^ 32)"

text \<open>
  The inner loop walks the pattern backwards from \<open>p\<close> and stops at the first bad
  character; its value is the final \<open>p\<close>, which is \<open>-1\<close> when the pattern is exhausted.
\<close>

function compare_backwards :: "string \<Rightarrow> string \<Rightarrow> int \<Rightarrow> int \<Rightarrow> error + int" where
  "compare_backwards text pat skip p =
     (if p \<ge> 0 then
        (case string_at text (skip + p) of
           Inl e \<Rightarrow> Inl e
         | Inr a \<Rightarrow>
             (case string_at pat p of
                Inl e \<Rightarrow> Inl e
              | Inr b \<Rightarrow>
                  if a \<noteq> b then Inr p
                  else compare_backwards text pat skip (p - 1)))
      else Inr p)"
  by pat_completeness auto
termination
  by (relation "measure (\<lambda>(text, pat, skip, p). nat (p + 1))") auto

text \<open>The outer loop \<^verbatim>\<open>while (skip <= maxSkip)\<close>, from the current value of \<open>skip\<close>.\<close>

function search_loop :: "StringFinder \<Rightarrow> int \<Rightarrow> int \<Rightarrow> int \<Rightarrow> error + int" where
  "search_loop sf patternSize maxSkip skip =
     (if skip \<le> maxSkip then
        (case compare_backwards (m_text sf) (m_pattern sf) skip (patternSize - 1) of
           Inl e \<Rightarrow> Inl e
         | Inr p \<Rightarrow>
             if p < 0 then Inr skip
             else
               (case string_at (m_text sf) (skip + p) of
                  Inl e \<Rightarrow> Inl e
                | Inr c \<Rightarrow>
                    (case table_read (m_lastOccurrences sf) (char_to_int c) of
                       Inl e \<Rightarrow> Inl e
                     | Inr l \<Rightarrow>
                         let update = p - l in
                         if update \<ge> 1 then search_loop sf patternSize maxSkip (skip + update)
                         else search_loop sf patternSize maxSkip (skip + 1))))
      else Inr (- 1))"
  by pat_completeness auto
termination
  by (relation "measure (\<lambda>(sf, patternSize, maxSkip, skip). nat (maxSkip + 1 - skip))") auto

text \<open>
  \<^verbatim>\<open>int search()\<close>. The method assigns to no member; the model returns the object beside
  the value, so that the effect of a call on the object can be stated.
\<close>

definition search :: "StringFinder \<Rightarrow> error + (int \<times> StringFinder)" where
  "search sf =
     (let textSize = size_to_int (length (m_text sf));
          patternSize = size_to_int (length (m_pattern sf))
      in if patternSize = 0 then Inr (- 1, sf)
         else
           (let skip = 0; maxSkip = textSize - patternSize
            in case search_loop sf patternSize maxSkip skip of
                 Inl e \<Rightarrow> Inl e
               | Inr r \<Rightarrow> Inr (r, sf)))"

text \<open>\<^verbatim>\<open>int search(string newPattern)\<close>.\<close>

definition search_new :: "StringFinder \<Rightarrow> string \<Rightarrow> error + (int \<times> StringFinder)" where
  "search_new sf newPattern =
     (case badCharacterPreprocessing (sf\<lparr>m_pattern := newPattern\<rparr>) of
        Inl e \<Rightarrow> Inl e
      | Inr sf' \<Rightarrow> search (goodSuffixPreprocessing sf'))"

section \<open>Notions of the specification\<close>

text \<open>
  The bytes below 0x80: the characters whose value as a \<^verbatim>\<open>char\<close> is not negative.
\<close>

definition low_byte :: "char \<Rightarrow> bool" where
  "low_byte c \<longleftrightarrow> of_char c < (128 :: nat)"

text \<open>
  The highest index of the pattern at which the byte \<open>b\<close> occurs, or \<open>-1\<close> if it does not
  occur: the first hit when the indices are tried from the last one down.
\<close>

definition last_index :: "string \<Rightarrow> char \<Rightarrow> int" where
  "last_index pat b =
     (case find (\<lambda>i. pat ! i = b) (rev [0..<length pat]) of
        None \<Rightarrow> - 1
      | Some i \<Rightarrow> int i)"

text \<open>The table that holds, at the position of every byte value, its last index.\<close>

definition table_of :: "string \<Rightarrow> int list" where
  "table_of pat = map (\<lambda>k. last_index pat (char_of k)) [0..<256]"

text \<open>
  The pattern \<open>p\<close> stands in the text \<open>t\<close> at the offset \<open>s\<close>: \<open>t[s : s+|p|] == p\<close>.
\<close>

definition slice :: "'a list \<Rightarrow> nat \<Rightarrow> nat \<Rightarrow> 'a list" where
  "slice xs i j = take (j - i) (drop i xs)"

definition occurs_at :: "string \<Rightarrow> string \<Rightarrow> nat \<Rightarrow> bool" where
  "occurs_at t p s \<longleftrightarrow> slice t s (s + length p) = p"

text \<open>
  What the test driver does with every pair: \<^verbatim>\<open>StringFinder s(text, pattern); s.search()\<close>.
\<close>

definition construct_and_search :: "string \<Rightarrow> string \<Rightarrow> error + int" where
  "construct_and_search text pattern =
     (case new_StringFinder text pattern of
        Inl e \<Rightarrow> Inl e
      | Inr sf \<Rightarrow> (case search sf of Inl e \<Rightarrow> Inl e | Inr (r, sf') \<Rightarrow> Inr r))"

section \<open>The scan with its alignments counted\<close>

text \<open>
  The two loops of \<open>search\<close> once more, with the same tests and the same steps, and
  beside each value what the loop did to reach it: for the inner loop the number of
  character comparisons \<^verbatim>\<open>m_text[skip + p] != m_pattern[p]\<close>, for the outer loop the list
  of the alignments it visited, each with its number of comparisons.
\<close>

function compare_backwards_counted ::
  "string \<Rightarrow> string \<Rightarrow> int \<Rightarrow> int \<Rightarrow> (error + int) \<times> nat" where
  "compare_backwards_counted text pat skip p =
     (if p \<ge> 0 then
        (case string_at text (skip + p) of
           Inl e \<Rightarrow> (Inl e, 0)
         | Inr a \<Rightarrow>
             (case string_at pat p of
                Inl e \<Rightarrow> (Inl e, 0)
              | Inr b \<Rightarrow>
                  map_prod id Suc
                    (if a \<noteq> b then (Inr p, 0)
                     else compare_backwards_counted text pat skip (p - 1))))
      else (Inr p, 0))"
  by pat_completeness auto
termination
  by (relation "measure (\<lambda>(text, pat, skip, p). nat (p + 1))") auto

function search_loop_traced ::
  "StringFinder \<Rightarrow> int \<Rightarrow> int \<Rightarrow> int \<Rightarrow> (error + int) \<times> (int \<times> nat) list" where
  "search_loop_traced sf patternSize maxSkip skip =
     (if skip \<le> maxSkip then
        map_prod id
          ((#) (skip, snd (compare_backwards_counted (m_text sf) (m_pattern sf) skip
                             (patternSize - 1))))
          (case fst (compare_backwards_counted (m_text sf) (m_pattern sf) skip
                       (patternSize - 1)) of
             Inl e \<Rightarrow> (Inl e, [])
           | Inr p \<Rightarrow>
               if p < 0 then (Inr skip, [])
               else
                 (case string_at (m_text sf) (skip + p) of
                    Inl e \<Rightarrow> (Inl e, [])
                  | Inr c \<Rightarrow>
                      (case table_read (m_lastOccurrences sf) (char_to_int c) of
                         Inl e \<Rightarrow> (Inl e, [])
                       | Inr l \<Rightarrow>
                           let update = p - l in
                           if update \<ge> 1
                           then search_loop_traced sf patternSize maxSkip (skip + update)
                           else search_loop_traced sf patternSize maxSkip (skip + 1))))
      else (Inr (- 1), []))"
  by pat_completeness auto
termination
  by (relation "measure (\<lambda>(sf, patternSize, maxSkip, skip). nat (maxSkip + 1 - skip))") auto


section \<open>The scan without the check of the subscript\<close>

text \<open>
  A compiled program does not check the subscript of \<^verbatim>\<open>m_lastOccurrences\<close>: a read outside
  the table delivers the \<^verbatim>\<open>int\<close> that lies at that place of the memory. Nothing is known of
  it; \<open>beyond i\<close> stands for the value found at the subscript \<open>i\<close>. The scan below is
  \<open>search\<close> with this read in place of the checked one, and nothing else changed.
\<close>

definition table_read_unchecked :: "(int \<Rightarrow> int) \<Rightarrow> int list \<Rightarrow> int \<Rightarrow> int" where
  "table_read_unchecked beyond tbl i = (if 0 \<le> i \<and> i < 256 then tbl ! nat i else beyond i)"

function search_loop_unchecked ::
  "(int \<Rightarrow> int) \<Rightarrow> StringFinder \<Rightarrow> int \<Rightarrow> int \<Rightarrow> int \<Rightarrow> error + int" where
  "search_loop_unchecked beyond sf patternSize maxSkip skip =
     (if skip \<le> maxSkip then
        (case compare_backwards (m_text sf) (m_pattern sf) skip (patternSize - 1) of
           Inl e \<Rightarrow> Inl e
         | Inr p \<Rightarrow>
             if p < 0 then Inr skip
             else
               (case string_at (m_text sf) (skip + p) of
                  Inl e \<Rightarrow> Inl e
                | Inr c \<Rightarrow>
                    let update = p - table_read_unchecked beyond (m_lastOccurrences sf)
                                       (char_to_int c) in
                    if update \<ge> 1
                    then search_loop_unchecked beyond sf patternSize maxSkip (skip + update)
                    else search_loop_unchecked beyond sf patternSize maxSkip (skip + 1)))
      else Inr (- 1))"
  by pat_completeness auto
termination
  by (relation "measure (\<lambda>(beyond, sf, patternSize, maxSkip, skip). nat (maxSkip + 1 - skip))")
    auto


text \<open>
  The equations of the loops are unconditional and recursive: they are unfolded by
  hand, one iteration at a time.
\<close>

declare fill_table.simps [simp del] record_occurrences.simps [simp del]
  compare_backwards.simps [simp del] search_loop.simps [simp del]
  compare_backwards_counted.simps [simp del] search_loop_traced.simps [simp del]
  search_loop_unchecked.simps [simp del]

section \<open>The conversion of the sizes\<close>

lemma size_to_int_small: "n < 2 ^ 31 \<Longrightarrow> size_to_int n = int n"
proof -
  assume "n < 2 ^ 31"
  then have "int n < 2 ^ 31" by (metis of_nat_less_iff of_nat_numeral of_nat_power)
  then have "int n mod 2 ^ 32 = int n" by simp
  with \<open>int n < 2 ^ 31\<close> show ?thesis
    by (simp add: size_to_int_def Let_def)
qed


lemma size_to_int_0: "size_to_int 0 = 0"
  by (simp add: size_to_int_def)

lemma size_to_int_wrapped: "size_to_int 4294967297 = 1" "size_to_int 2147483649 = - 2147483647"
  by (simp_all add: size_to_int_def)

section \<open>Degenerate inputs\<close>

lemma search_loop_past_end:
  "maxSkip < skip \<Longrightarrow> search_loop sf patternSize maxSkip skip = Inr (- 1)"
  by (subst search_loop.simps) simp

lemma search_returns_object:
  "search sf = Inr (r, sf') \<Longrightarrow> sf' = sf"
  by (auto simp: search_def Let_def split: if_splits sum.splits)

lemma badCharacterPreprocessing_frame:
  "badCharacterPreprocessing sf = Inr sf' \<Longrightarrow>
     sf' = sf\<lparr>m_lastOccurrences := m_lastOccurrences sf'\<rparr>"
  by (auto simp: badCharacterPreprocessing_def split: sum.splits)

lemma compare_backwards_done:
  "p < 0 \<Longrightarrow> compare_backwards t pat skip p = Inr p"
  by (subst compare_backwards.simps) simp

text \<open>
  A pattern of \<open>2^32 + 1\<close> bytes has the \<^verbatim>\<open>int\<close> size 1: the scan compares its first byte
  only, and reports the offset 0 when the text starts with that byte.
\<close>

lemma search_wrapped_pattern:
  assumes "t \<noteq> []" and "hd t = c" and "length t < 2 ^ 31"
  shows "search \<lparr>m_text = t, m_pattern = replicate 4294967297 c, m_lastOccurrences = tbl\<rparr>
     = Inr (0, \<lparr>m_text = t, m_pattern = replicate 4294967297 c, m_lastOccurrences = tbl\<rparr>)"
proof -
  let ?p = "replicate 4294967297 c"
  let ?sf = "\<lparr>m_text = t, m_pattern = ?p, m_lastOccurrences = tbl\<rparr>"
  have t0: "string_at t 0 = Inr c"
    using assms by (cases t) (simp_all add: string_at_def)
  have p0: "string_at ?p 0 = Inr c"
    by (simp add: string_at_def)
  have "compare_backwards t ?p 0 0 = Inr (- 1)"
    using t0 p0 by (subst compare_backwards.simps) (simp add: compare_backwards_done)
  moreover have "0 \<le> int (length t) - 1"
    using assms(1) by (cases t) simp_all
  ultimately have "search_loop ?sf 1 (int (length t) - 1) 0 = Inr 0"
    by (subst search_loop.simps) simp
  then show ?thesis
    using assms(3) by (simp add: search_def Let_def size_to_int_small size_to_int_wrapped)
qed

text \<open>
  A text of \<open>2^31 + 1\<close> bytes has a negative \<^verbatim>\<open>int\<close> size: the loop is not entered.
\<close>

lemma search_text_wrapped:
  "search \<lparr>m_text = replicate 2147483649 c, m_pattern = [c], m_lastOccurrences = tbl\<rparr>
     = Inr (- 1, \<lparr>m_text = replicate 2147483649 c, m_pattern = [c], m_lastOccurrences = tbl\<rparr>)"
  by (simp add: search_def Let_def size_to_int_small size_to_int_wrapped search_loop_past_end)

text \<open>
  C6. A finder whose pattern is empty answers -1 (not found) to \<open>search\<close>, whatever its
  text and table are, the empty text included, and the object is left as it was.
\<close>

theorem search_empty_pattern:
  "m_pattern sf = [] \<Longrightarrow> search sf = Inr (- 1, sf)"
  by (simp add: search_def size_to_int_0)

theorem search_empty_pattern_witness:
  "m_pattern \<lparr>m_text = [], m_pattern = [], m_lastOccurrences = replicate 256 (- 1)\<rparr> = []
   \<and> search \<lparr>m_text = [], m_pattern = [], m_lastOccurrences = replicate 256 (- 1)\<rparr>
       = Inr (- 1, \<lparr>m_text = [], m_pattern = [], m_lastOccurrences = replicate 256 (- 1)\<rparr>)"
  using search_empty_pattern
    [of "\<lparr>m_text = [], m_pattern = [], m_lastOccurrences = replicate 256 (- 1)\<rparr>"]
  by simp

text \<open>
  C7 (as amended). A finder whose pattern is longer than its text, and shorter than
  \<open>2^31\<close> bytes, answers -1 to \<open>search\<close>: the scan loop is not entered and no match is
  reported.
\<close>

theorem search_pattern_longer_than_text:
  assumes "length (m_pattern sf) < 2 ^ 31"
      and "length (m_text sf) < length (m_pattern sf)"
  shows "search sf = Inr (- 1, sf)"
proof -
  from assms have "length (m_text sf) < 2 ^ 31"
    by simp
  with assms show ?thesis
    by (simp add: search_def Let_def size_to_int_small search_loop_past_end)
qed

theorem search_pattern_longer_than_text_witness:
  "length (m_text \<lparr>m_text = ''1'', m_pattern = ''Not here'',
                   m_lastOccurrences = replicate 256 (- 1)\<rparr>)
     < length (m_pattern \<lparr>m_text = ''1'', m_pattern = ''Not here'',
                   m_lastOccurrences = replicate 256 (- 1)\<rparr>)
   \<and> search \<lparr>m_text = ''1'', m_pattern = ''Not here'',
              m_lastOccurrences = replicate 256 (- 1)\<rparr>
       = Inr (- 1, \<lparr>m_text = ''1'', m_pattern = ''Not here'',
                    m_lastOccurrences = replicate 256 (- 1)\<rparr>)"
  using search_pattern_longer_than_text
    [of "\<lparr>m_text = ''1'', m_pattern = ''Not here'',
          m_lastOccurrences = replicate 256 (- 1)\<rparr>"]
  by simp

text \<open>
  Without the bound the claim fails: the pattern of \<open>2^32 + 1\<close> bytes \<open>a\<close> is longer than
  the text \<open>a\<close>, its size as an \<^verbatim>\<open>int\<close> is 1, and \<open>search\<close> reports a match at the
  offset 0 (whatever the table holds: no entry is read).
\<close>

theorem search_pattern_longer_than_text_wrapped:
  "length (m_text \<lparr>m_text = ''a'', m_pattern = replicate 4294967297 (CHR ''a''),
                    m_lastOccurrences = replicate 256 (- 1)\<rparr>)
     < length (m_pattern \<lparr>m_text = ''a'', m_pattern = replicate 4294967297 (CHR ''a''),
                    m_lastOccurrences = replicate 256 (- 1)\<rparr>)
   \<and> search \<lparr>m_text = ''a'', m_pattern = replicate 4294967297 (CHR ''a''),
              m_lastOccurrences = replicate 256 (- 1)\<rparr>
       = Inr (0, \<lparr>m_text = ''a'', m_pattern = replicate 4294967297 (CHR ''a''),
                   m_lastOccurrences = replicate 256 (- 1)\<rparr>)"
  by (simp add: search_wrapped_pattern)

section \<open>Effects of the two methods on the object\<close>

text \<open>
  C9. \<open>search\<close> has no side effect: a call that returns a value leaves the object as it
  was, and a second call right after it returns the same value.
\<close>

theorem search_idempotent:
  "search sf = Inr (r, sf') \<Longrightarrow> sf' = sf \<and> search sf' = Inr (r, sf')"
  by (auto simp: search_def Let_def split: if_splits sum.splits)

theorem search_idempotent_witness:
  "search \<lparr>m_text = ''a1'', m_pattern = ''1'',
           m_lastOccurrences = (replicate 256 (- 1))[49 := 0]\<rparr>
     = Inr (1, \<lparr>m_text = ''a1'', m_pattern = ''1'',
                 m_lastOccurrences = (replicate 256 (- 1))[49 := 0]\<rparr>)"
proof -
  have first: "search \<lparr>m_text = ''a1'', m_pattern = ''1'',
                  m_lastOccurrences = (replicate 256 (- 1))[49 := 0]\<rparr>
     = Inr (1, \<lparr>m_text = ''a1'', m_pattern = ''1'',
                 m_lastOccurrences = (replicate 256 (- 1))[49 := 0]\<rparr>)"
    by code_simp
  from search_idempotent [OF first] show ?thesis
    by simp
qed

text \<open>
  When the constructor and the two methods return, the text is the one given to the
  constructor, \<open>search\<close> has left the object as it was and \<open>search_new\<close> has changed the
  pattern and the table only. (A call of \<open>search_new\<close> that does not return is the
  subject of C10 below.)
\<close>

lemma text_kept_on_return:
  "(new_StringFinder t p = Inr sf0 \<longrightarrow> m_text sf0 = t)
   \<and> (search sf = Inr (r, sf') \<longrightarrow> m_text sf' = m_text sf)
   \<and> (search_new sf newPattern = Inr (r2, sf2) \<longrightarrow>
        sf2 = sf\<lparr>m_pattern := newPattern, m_lastOccurrences := m_lastOccurrences sf2\<rparr>
        \<and> m_text sf2 = m_text sf)"
proof (intro conjI impI)
  assume "new_StringFinder t p = Inr sf0"
  then have "badCharacterPreprocessing
      \<lparr>m_text = t, m_pattern = p, m_lastOccurrences = replicate 256 0\<rparr> = Inr sf0"
    by (auto simp: new_StringFinder_def goodSuffixPreprocessing_def split: sum.splits)
  from badCharacterPreprocessing_frame [OF this]
  have built: "sf0 = \<lparr>m_text = t, m_pattern = p, m_lastOccurrences = m_lastOccurrences sf0\<rparr>"
    by simp
  show "m_text sf0 = t"
    by (subst built) simp
next
  assume "search sf = Inr (r, sf')"
  then show "m_text sf' = m_text sf"
    by (auto dest: search_returns_object)
next
  assume run: "search_new sf newPattern = Inr (r2, sf2)"
  then obtain sf1 where pre: "badCharacterPreprocessing (sf\<lparr>m_pattern := newPattern\<rparr>) = Inr sf1"
    and scan: "search sf1 = Inr (r2, sf2)"
    by (auto simp: search_new_def goodSuffixPreprocessing_def split: sum.splits)
  from scan have "sf2 = sf1"
    by (rule search_returns_object)
  with badCharacterPreprocessing_frame [OF pre]
  show upd: "sf2 = sf\<lparr>m_pattern := newPattern, m_lastOccurrences := m_lastOccurrences sf2\<rparr>"
    by simp
  show "m_text sf2 = m_text sf"
    by (subst upd) simp
qed

section \<open>The skip table\<close>

lemma char_to_int_low: "low_byte c \<Longrightarrow> char_to_int c = int (of_char c)"
  by (simp add: char_to_int_def low_byte_def of_nat_of_char [symmetric, where ?'a = int])

lemma char_to_int_high: "\<not> low_byte c \<Longrightarrow> char_to_int c < 0"
proof -
  assume "\<not> low_byte c"
  have "of_char c < (256::nat)" by simp
  then have "int (of_char c) < 256" by linarith
  then have "(of_char c :: int) < 256" by (simp only: of_nat_of_char)
  then show ?thesis using \<open>\<not> low_byte c\<close>
    by (simp add: char_to_int_def low_byte_def of_nat_of_char [symmetric, where ?'a = int])
qed

lemma last_index_Nil: "last_index [] b = - 1"
  by (simp add: last_index_def)

lemma last_index_snoc:
  "last_index (pat @ [c]) b = (if b = c then int (length pat) else last_index pat b)"
proof -
  have "find (\<lambda>i. (pat @ [c]) ! i = b) (rev [0..<length pat]) = find (\<lambda>i. pat ! i = b) (rev [0..<length pat])"
    by (rule find_cong) (auto simp: nth_append)
  then show ?thesis
    by (simp add: last_index_def)
qed

lemma last_index_absent: "b \<notin> set pat \<Longrightarrow> last_index pat b = - 1"
  by (induction pat rule: rev_induct) (auto simp: last_index_Nil last_index_snoc)

lemma last_index_present:
  "b \<in> set pat \<Longrightarrow>
     0 \<le> last_index pat b \<and> last_index pat b < int (length pat)
     \<and> pat ! nat (last_index pat b) = b
     \<and> (\<forall>j. nat (last_index pat b) < j \<and> j < length pat \<longrightarrow> pat ! j \<noteq> b)"
proof (induction pat rule: rev_induct)
  case Nil
  then show ?case by simp
next
  case (snoc c pat)
  show ?case
  proof (cases "b = c")
    case True
    then show ?thesis by (auto simp: last_index_snoc)
  next
    case False
    with snoc.prems have "b \<in> set pat" by simp
    from snoc.IH [OF this] False show ?thesis
      by (auto simp: last_index_snoc nth_append)
  qed
qed

lemma last_index_ge: "- 1 \<le> last_index pat b"
  using last_index_absent [of b pat] last_index_present [of b pat] by (cases "b \<in> set pat") auto

lemma length_table_of: "length (table_of pat) = 256"
  by (simp add: table_of_def)

lemma table_of_nth: "k < 256 \<Longrightarrow> table_of pat ! k = last_index pat (char_of k)"
  by (simp add: table_of_def)

lemma table_of_Nil: "table_of [] = replicate 256 (- 1)"
  by (simp add: table_of_def last_index_Nil map_replicate_const)

lemma table_of_snoc:
  "(table_of pat)[of_char c := int (length pat)] = table_of (pat @ [c])"
proof (rule nth_equalityI)
  show "length ((table_of pat)[of_char c := int (length pat)]) = length (table_of (pat @ [c]))"
    by (simp add: length_table_of)
next
  fix k assume "k < length ((table_of pat)[of_char c := int (length pat)])"
  then have k: "k < 256" by (simp add: length_table_of)
  have "(char_of k = c) = (k = of_char c)"
    using k by (auto simp: char_of_eq_iff take_bit_eq_mod)
  then show "(table_of pat)[of_char c := int (length pat)] ! k = table_of (pat @ [c]) ! k"
    using k by (auto simp: table_of_nth last_index_snoc length_table_of nth_list_update)
qed

lemma fill_table_from:
  "length tbl = 256 \<Longrightarrow> 0 \<le> i \<Longrightarrow> i \<le> 256 \<Longrightarrow>
     fill_table i tbl = Inr (take (nat i) tbl @ replicate (256 - nat i) (- 1))"
proof (induction i tbl rule: fill_table.induct)
  case (1 i tbl)
  show ?case
  proof (cases "i < 256")
    case False
    with 1 show ?thesis
      by (subst fill_table.simps) (simp add: POSSIBLE_CHARACTERS_def)
  next
    case True
    have w: "table_write tbl i (- 1) = Inr (tbl[nat i := - 1])"
      using True "1.prems" by (simp add: table_write_def)
    have "fill_table (i + 1) (tbl[nat i := - 1])
        = Inr (take (nat (i + 1)) (tbl[nat i := - 1]) @ replicate (256 - nat (i + 1)) (- 1))"
      using True "1.prems" by (intro "1.IH" [OF _ w]) (simp_all add: POSSIBLE_CHARACTERS_def)
    moreover have "take (nat (i + 1)) (tbl[nat i := - 1]) @ replicate (256 - nat (i + 1)) (- 1)
        = take (nat i) tbl @ replicate (256 - nat i) (- 1)"
    proof -
      obtain k where k: "256 - nat (i + 1) = k" and sk: "256 - nat i = Suc k"
        using True "1.prems" by (simp add: nat_add_distrib Suc_diff_Suc)
      have "take (nat (i + 1)) (tbl[nat i := - 1]) = take (nat i) tbl @ [- 1]"
        using True "1.prems" by (simp add: nat_add_distrib take_Suc_conv_app_nth)
      then show ?thesis
        unfolding k sk by simp
    qed
    ultimately show ?thesis
      using True w by (subst fill_table.simps) (simp add: POSSIBLE_CHARACTERS_def)
  qed
qed

lemma fill_table_any:
  "length tbl = 256 \<Longrightarrow> fill_table 0 tbl = Inr (replicate 256 (- 1))"
  using fill_table_from [of tbl 0] by simp

lemma record_occurrences_low:
  assumes low: "\<forall>c\<in>set pat. low_byte c"
  shows "0 \<le> i \<Longrightarrow> i \<le> int (length pat) \<Longrightarrow>
     record_occurrences pat i (table_of (take (nat i) pat)) = Inr (table_of pat)"
proof (induction "length pat - nat i" arbitrary: i)
  case 0
  then have "i = int (length pat)" by simp
  then show ?case
    by (subst record_occurrences.simps) simp
next
  case (Suc n)
  then have i: "0 \<le> i" "i < int (length pat)" by auto
  let ?c = "pat ! nat i"
  have c: "string_at pat i = Inr ?c"
    using i by (simp add: string_at_def)
  have "low_byte ?c"
    using low i by simp
  then have idx: "char_to_int ?c = int (of_char ?c)" "of_char ?c < (128 :: nat)"
    by (simp_all add: char_to_int_low low_byte_def)
  have "take (Suc (nat i)) pat = take (nat i) pat @ [?c]"
    using i by (simp add: take_Suc_conv_app_nth)
  moreover have "length (take (nat i) pat) = nat i"
    using i by simp
  ultimately have "(table_of (take (nat i) pat))[of_char ?c := i] = table_of (take (nat (i + 1)) pat)"
    using table_of_snoc [of "take (nat i) pat" ?c] i by (simp add: nat_add_distrib)
  then have w: "table_write (table_of (take (nat i) pat)) (char_to_int ?c) i
      = Inr (table_of (take (nat (i + 1)) pat))"
    using idx by (simp add: table_write_def)
  have "record_occurrences pat (i + 1) (table_of (take (nat (i + 1)) pat)) = Inr (table_of pat)"
    using Suc.hyps(2) i by (intro Suc.hyps(1)) auto
  then show ?case
    using i c w by (subst record_occurrences.simps) simp
qed

lemma record_occurrences_high:
  "0 \<le> i \<Longrightarrow> i \<le> int j \<Longrightarrow> j < length pat \<Longrightarrow> \<not> low_byte (pat ! j) \<Longrightarrow>
     record_occurrences pat i tbl = Inl TableOutOfBounds"
proof (induction "j - nat i" arbitrary: i tbl)
  case 0
  then have i: "i = int j" by simp
  have "string_at pat i = Inr (pat ! j)"
    using 0 i by (simp add: string_at_def)
  moreover have "table_write tbl (char_to_int (pat ! j)) i = Inl TableOutOfBounds"
    using char_to_int_high [OF 0(5)] by (simp add: table_write_def)
  ultimately show ?case
    using 0 i by (subst record_occurrences.simps) simp
next
  case (Suc n)
  then have i: "0 \<le> i" "i < int j" "i < int (length pat)" by auto
  have c: "string_at pat i = Inr (pat ! nat i)"
    using i by (simp add: string_at_def)
  have rest: "record_occurrences pat (i + 1) tbl' = Inl TableOutOfBounds" for tbl'
    using Suc.hyps(2) Suc.prems i by (intro Suc.hyps(1)) auto
  show ?case
    using i c rest
    by (subst record_occurrences.simps) (simp add: table_write_def)
qed

lemma badCharacterPreprocessing_low:
  "length (m_lastOccurrences sf) = 256 \<Longrightarrow> \<forall>c\<in>set (m_pattern sf). low_byte c \<Longrightarrow>
     badCharacterPreprocessing sf = Inr (sf\<lparr>m_lastOccurrences := table_of (m_pattern sf)\<rparr>)"
  using record_occurrences_low [of "m_pattern sf" 0]
  by (simp add: badCharacterPreprocessing_def fill_table_any table_of_Nil)

lemma badCharacterPreprocessing_high:
  "length (m_lastOccurrences sf) = 256 \<Longrightarrow> c \<in> set (m_pattern sf) \<Longrightarrow> \<not> low_byte c \<Longrightarrow>
     badCharacterPreprocessing sf = Inl TableOutOfBounds"
  using record_occurrences_high [of 0 _ "m_pattern sf"]
  by (auto simp: badCharacterPreprocessing_def fill_table_any in_set_conv_nth)

lemma new_StringFinder_low:
  "\<forall>c\<in>set p. low_byte c \<Longrightarrow>
     new_StringFinder t p = Inr \<lparr>m_text = t, m_pattern = p, m_lastOccurrences = table_of p\<rparr>"
  by (simp add: new_StringFinder_def goodSuffixPreprocessing_def badCharacterPreprocessing_low)

lemma new_StringFinder_high:
  "c \<in> set p \<Longrightarrow> \<not> low_byte c \<Longrightarrow> new_StringFinder t p = Inl TableOutOfBounds"
  using badCharacterPreprocessing_high
    [of "\<lparr>m_text = t, m_pattern = p, m_lastOccurrences = replicate 256 0\<rparr>" c]
  by (simp add: new_StringFinder_def)

lemma new_StringFinder_Inr:
  assumes "new_StringFinder t p = Inr sf"
  shows "(\<forall>c\<in>set p. low_byte c)
     \<and> sf = \<lparr>m_text = t, m_pattern = p, m_lastOccurrences = table_of p\<rparr>"
proof -
  have low: "\<forall>c\<in>set p. low_byte c"
  proof (rule ccontr)
    assume "\<not> (\<forall>c\<in>set p. low_byte c)"
    then obtain c where "c \<in> set p" "\<not> low_byte c"
      by auto
    then have "new_StringFinder t p = Inl TableOutOfBounds"
      by (rule new_StringFinder_high)
    with assms show False by simp
  qed
  with assms show ?thesis
    by (simp add: new_StringFinder_low)
qed

section \<open>The scan\<close>

lemma occurs_at_iff:
  assumes "p \<noteq> []"
  shows "occurs_at t p s \<longleftrightarrow> s + length p \<le> length t \<and> (\<forall>j<length p. t ! (s + j) = p ! j)"
proof
  assume "occurs_at t p s"
  then have eq: "take (length p) (drop s t) = p"
    by (simp add: occurs_at_def slice_def)
  then have "length (take (length p) (drop s t)) = length p"
    by simp
  with assms have len: "s + length p \<le> length t"
    by (cases p) auto
  have "t ! (s + j) = p ! j" if "j < length p" for j
  proof -
    have "p ! j = take (length p) (drop s t) ! j" by (simp only: eq)
    also have "\<dots> = t ! (s + j)" using that len by simp
    finally show ?thesis by simp
  qed
  with len show "s + length p \<le> length t \<and> (\<forall>j<length p. t ! (s + j) = p ! j)"
    by simp
next
  assume "s + length p \<le> length t \<and> (\<forall>j<length p. t ! (s + j) = p ! j)"
  then have "take (length p) (drop s t) = p"
    by (intro nth_equalityI) auto
  then show "occurs_at t p s"
    by (simp add: occurs_at_def slice_def)
qed

lemma sublist_iff_occurs: "sublist p t \<longleftrightarrow> (\<exists>s. occurs_at t p s)"
proof
  assume "sublist p t"
  then obtain ps ss where "t = ps @ p @ ss"
    by (auto simp: sublist_def)
  then have "occurs_at t p (length ps)"
    by (simp add: occurs_at_def slice_def)
  then show "\<exists>s. occurs_at t p s" ..
next
  assume "\<exists>s. occurs_at t p s"
  then obtain s where "take (length p) (drop s t) = p"
    by (auto simp: occurs_at_def slice_def)
  then have "t = take s t @ p @ drop (length p) (drop s t)"
    by (metis append_take_drop_id)
  then show "sublist p t"
    unfolding sublist_def by blast
qed

lemma compare_backwards_result:
  assumes "0 \<le> skip" and "skip + int (length pat) \<le> int (length text)"
  shows "- 1 \<le> p \<Longrightarrow> p < int (length pat) \<Longrightarrow>
     \<exists>q. compare_backwards text pat skip p = Inr q \<and> - 1 \<le> q \<and> q \<le> p
       \<and> (\<forall>j. q < j \<and> j \<le> p \<longrightarrow> text ! nat (skip + j) = pat ! nat j)
       \<and> (0 \<le> q \<longrightarrow> text ! nat (skip + q) \<noteq> pat ! nat q)"
proof (induction "nat (p + 1)" arbitrary: p)
  case 0
  then have "p = - 1" by simp
  then show ?case
    by (subst compare_backwards.simps) auto
next
  case (Suc n)
  then have p: "0 \<le> p" "p < int (length pat)" by auto
  have a: "string_at text (skip + p) = Inr (text ! nat (skip + p))"
    using p assms by (simp add: string_at_def)
  have b: "string_at pat p = Inr (pat ! nat p)"
    using p by (simp add: string_at_def)
  show ?case
  proof (cases "text ! nat (skip + p) = pat ! nat p")
    case False
    have "compare_backwards text pat skip p = Inr p"
      using p a b False by (subst compare_backwards.simps) simp
    with False p show ?thesis by auto
  next
    case True
    have "\<exists>q. compare_backwards text pat skip (p - 1) = Inr q \<and> - 1 \<le> q \<and> q \<le> p - 1
       \<and> (\<forall>j. q < j \<and> j \<le> p - 1 \<longrightarrow> text ! nat (skip + j) = pat ! nat j)
       \<and> (0 \<le> q \<longrightarrow> text ! nat (skip + q) \<noteq> pat ! nat q)"
      using Suc.hyps(2) p by (intro Suc.hyps(1)) auto
    then obtain q where q: "compare_backwards text pat skip (p - 1) = Inr q" "- 1 \<le> q" "q \<le> p - 1"
       "\<forall>j. q < j \<and> j \<le> p - 1 \<longrightarrow> text ! nat (skip + j) = pat ! nat j"
       "0 \<le> q \<longrightarrow> text ! nat (skip + q) \<noteq> pat ! nat q"
      by blast
    have "compare_backwards text pat skip p = Inr q"
      using p a b True q(1) by (subst compare_backwards.simps) simp
    moreover have "text ! nat (skip + j) = pat ! nat j" if "q < j" "j \<le> p" for j
      using that q(4) True by (cases "j = p") auto
    ultimately show ?thesis
      using q(2,3,5) by auto
  qed
qed

lemma search_loop_correct:
  assumes tbl: "m_lastOccurrences sf = table_of (m_pattern sf)"
      and low: "\<forall>c\<in>set (m_text sf). low_byte c"
      and ne: "m_pattern sf \<noteq> []"
      and m: "m = int (length (m_pattern sf))"
      and k: "maxSkip = int (length (m_text sf)) - m"
  shows "0 \<le> skip \<Longrightarrow>
     (\<forall>s. int s < skip \<longrightarrow> \<not> occurs_at (m_text sf) (m_pattern sf) s) \<Longrightarrow>
     \<exists>r. search_loop sf m maxSkip skip = Inr r
       \<and> (if r = - 1 then \<forall>s. \<not> occurs_at (m_text sf) (m_pattern sf) s
           else 0 \<le> r \<and> occurs_at (m_text sf) (m_pattern sf) (nat r)
             \<and> (\<forall>s<nat r. \<not> occurs_at (m_text sf) (m_pattern sf) s))"
proof (induction "nat (maxSkip + 1 - skip)" arbitrary: skip rule: less_induct)
  case less
  let ?t = "m_text sf" and ?p = "m_pattern sf"
  note occ = occurs_at_iff [OF ne]
  show ?case
  proof (cases "skip \<le> maxSkip")
    case False
    have "\<not> occurs_at ?t ?p s" for s
    proof (cases "int s < skip")
      case True
      with less.prems show ?thesis by simp
    next
      case False
      with \<open>\<not> skip \<le> maxSkip\<close> have "\<not> s + length ?p \<le> length ?t"
        using m k by linarith
      then show ?thesis by (simp add: occ)
    qed
    moreover have "search_loop sf m maxSkip skip = Inr (- 1)"
      using False by (simp add: search_loop_past_end)
    ultimately show ?thesis by simp
  next
    case True
    have fits: "skip + int (length ?p) \<le> int (length ?t)"
      using True m k by simp
    have "m - 1 < int (length ?p)" "- 1 \<le> m - 1"
      using m by simp_all
    from compare_backwards_result [OF less.prems(1) fits this(2,1)]
    obtain q where q: "compare_backwards ?t ?p skip (m - 1) = Inr q" "- 1 \<le> q" "q \<le> m - 1"
       "\<forall>j. q < j \<and> j \<le> m - 1 \<longrightarrow> ?t ! nat (skip + j) = ?p ! nat j"
       "0 \<le> q \<longrightarrow> ?t ! nat (skip + q) \<noteq> ?p ! nat q"
      by blast
    show ?thesis
    proof (cases "q < 0")
      case True
      have "?t ! (nat skip + j) = ?p ! j" if "j < length ?p" for j
      proof -
        have "?t ! nat (skip + int j) = ?p ! nat (int j)"
          using q(4) True that m by (intro q(4) [rule_format]) auto
        then show ?thesis
          using less.prems(1) by (simp add: nat_add_distrib)
      qed
      then have here: "occurs_at ?t ?p (nat skip)"
        using fits less.prems(1) by (simp add: occ)
      have "search_loop sf m maxSkip skip = Inr skip"
        using \<open>skip \<le> maxSkip\<close> q(1) True by (subst search_loop.simps) simp
      with here less.prems show ?thesis
        by auto
    next
      case False
      then have q0: "0 \<le> q" by simp
      let ?c = "?t ! nat (skip + q)"
      have inside_int: "skip + q < int (length ?t)"
        using q(3) fits m by linarith
      then have inside: "nat (skip + q) < length ?t"
        using q0 less.prems(1) by linarith
      have c: "string_at ?t (skip + q) = Inr ?c"
        using inside_int q0 less.prems(1) by (simp add: string_at_def)
      have "low_byte ?c"
        using low inside by simp
      then have idx: "char_to_int ?c = int (of_char ?c)" "of_char ?c < (128 :: nat)"
        by (simp_all add: char_to_int_low low_byte_def)
      then have l: "table_read (m_lastOccurrences sf) (char_to_int ?c) = Inr (last_index ?p ?c)"
        by (simp add: table_read_def tbl table_of_nth)
      let ?l = "last_index ?p ?c"
      let ?next = "if q - ?l \<ge> 1 then skip + (q - ?l) else skip + 1"
      have unfold: "search_loop sf m maxSkip skip = search_loop sf m maxSkip ?next"
        using \<open>skip \<le> maxSkip\<close> q(1) False c l
        by (subst search_loop.simps) (simp add: Let_def)
      have forward: "skip < ?next"
        by simp
      have not_here: "\<not> occurs_at ?t ?p (nat skip)"
      proof
        assume "occurs_at ?t ?p (nat skip)"
        then have "?t ! (nat skip + nat q) = ?p ! nat q"
          using q0 q(3) m by (simp add: occ)
        with q(5) q0 less.prems(1) show False
          by (simp add: nat_add_distrib)
      qed
      have skipped: "\<not> occurs_at ?t ?p s" if "int s < ?next" for s
      proof (cases "int s < skip")
        case True
        with less.prems(2) show ?thesis by simp
      next
        case False
        show ?thesis
        proof (cases "int s = skip")
          case True
          then have "s = nat skip" by simp
          with not_here show ?thesis by simp
        next
          case False
          with \<open>\<not> int s < skip\<close> have after: "skip < int s" by simp
          with that have shift: "1 \<le> q - ?l" "int s < skip + (q - ?l)"
            by (auto split: if_splits)
          show ?thesis
          proof
            assume here: "occurs_at ?t ?p s"
            let ?j = "nat (skip + q - int s)"
            have j: "?l < skip + q - int s" "skip + q - int s < q"
              using shift after by simp_all
            have "- 1 \<le> ?l"
              by (rule last_index_ge)
            with j have j0: "0 \<le> skip + q - int s" by simp
            have jm: "?j < length ?p"
              using j j0 q(3) m by linarith
            have pos: "s + ?j = nat (skip + q)"
              using j0 less.prems(1) q0 by linarith
            from here jm have "?t ! (s + ?j) = ?p ! ?j"
              unfolding occ by blast
            then have same: "?p ! ?j = ?c"
              unfolding pos by simp
            with jm have "?c \<in> set ?p"
              by (metis nth_mem)
            from last_index_present [OF this] have "nat ?l < ?j \<and> ?j < length ?p \<longrightarrow> ?p ! ?j \<noteq> ?c"
              and "0 \<le> ?l"
              by blast+
            moreover have "nat ?l < ?j"
              using j \<open>0 \<le> ?l\<close> by linarith
            ultimately show False
              using jm same by simp
          qed
        qed
      qed
      have "\<exists>r. search_loop sf m maxSkip ?next = Inr r
       \<and> (if r = - 1 then \<forall>s. \<not> occurs_at ?t ?p s
           else 0 \<le> r \<and> occurs_at ?t ?p (nat r) \<and> (\<forall>s<nat r. \<not> occurs_at ?t ?p s))"
      proof (rule less.hyps)
        show "nat (maxSkip + 1 - ?next) < nat (maxSkip + 1 - skip)"
          using forward \<open>skip \<le> maxSkip\<close> by simp
        show "0 \<le> ?next"
          using forward less.prems(1) by simp
        show "\<forall>s. int s < ?next \<longrightarrow> \<not> occurs_at ?t ?p s"
          using skipped by blast
      qed
      with unfold show ?thesis
        by simp
    qed
  qed
qed

lemma search_correct:
  assumes tbl: "m_lastOccurrences sf = table_of (m_pattern sf)"
      and low: "\<forall>c\<in>set (m_text sf). low_byte c"
      and ne: "m_pattern sf \<noteq> []"
      and fit: "length (m_text sf) < 2 ^ 31" "length (m_pattern sf) < 2 ^ 31"
  shows "\<exists>r. search sf = Inr (r, sf)
       \<and> (if r = - 1 then \<forall>s. \<not> occurs_at (m_text sf) (m_pattern sf) s
           else 0 \<le> r \<and> occurs_at (m_text sf) (m_pattern sf) (nat r)
             \<and> (\<forall>s<nat r. \<not> occurs_at (m_text sf) (m_pattern sf) s))"
proof -
  have "\<exists>r. search_loop sf (int (length (m_pattern sf)))
               (int (length (m_text sf)) - int (length (m_pattern sf))) 0 = Inr r
       \<and> (if r = - 1 then \<forall>s. \<not> occurs_at (m_text sf) (m_pattern sf) s
           else 0 \<le> r \<and> occurs_at (m_text sf) (m_pattern sf) (nat r)
             \<and> (\<forall>s<nat r. \<not> occurs_at (m_text sf) (m_pattern sf) s))"
    by (rule search_loop_correct [OF tbl low ne refl refl]) simp_all
  then obtain r where "search_loop sf (int (length (m_pattern sf)))
               (int (length (m_text sf)) - int (length (m_pattern sf))) 0 = Inr r"
     and "if r = - 1 then \<forall>s. \<not> occurs_at (m_text sf) (m_pattern sf) s
           else 0 \<le> r \<and> occurs_at (m_text sf) (m_pattern sf) (nat r)
             \<and> (\<forall>s<nat r. \<not> occurs_at (m_text sf) (m_pattern sf) s)"
    by blast
  moreover from this(1) ne fit have "search sf = Inr (r, sf)"
    by (simp add: search_def Let_def size_to_int_small)
  ultimately show ?thesis
    by blast
qed

lemma search_built:
  assumes low: "\<forall>c\<in>set t. low_byte c" and ne: "p \<noteq> []"
      and fit: "length t < 2 ^ 31" "length p < 2 ^ 31"
  shows "\<exists>r. search \<lparr>m_text = t, m_pattern = p, m_lastOccurrences = table_of p\<rparr>
            = Inr (r, \<lparr>m_text = t, m_pattern = p, m_lastOccurrences = table_of p\<rparr>)
       \<and> (if r = - 1 then \<forall>s. \<not> occurs_at t p s
           else 0 \<le> r \<and> occurs_at t p (nat r) \<and> (\<forall>s<nat r. \<not> occurs_at t p s))"
  using search_correct [of "\<lparr>m_text = t, m_pattern = p, m_lastOccurrences = table_of p\<rparr>"]
    low ne fit
  by (simp cong: if_cong)

lemma construct_and_search_low:
  assumes "\<forall>c\<in>set p. low_byte c"
  shows "construct_and_search t p
     = (case search \<lparr>m_text = t, m_pattern = p, m_lastOccurrences = table_of p\<rparr> of
          Inl e \<Rightarrow> Inl e | Inr (r, sf') \<Rightarrow> Inr r)"
  by (simp add: construct_and_search_def new_StringFinder_low [OF assms])

section \<open>The first occurrence\<close>

text \<open>
  C1 (as amended). For every text \<open>t\<close> shorter than \<open>2^31\<close> bytes and every pattern \<open>p\<close>
  that is not empty, both made of bytes below 0x80, with \<open>p\<close> a substring of \<open>t\<close>:
  constructing a finder and calling \<open>search\<close> returns the smallest offset \<open>s\<close> such that
  \<open>t[s : s+|p|] == p\<close>.
\<close>

theorem search_first_occurrence:
  assumes ne: "p \<noteq> []"
      and low: "\<forall>c\<in>set t \<union> set p. low_byte c"
      and fit: "length t < 2 ^ 31"
      and present: "sublist p t"
  shows "\<exists>s. construct_and_search t p = Inr (int s)
           \<and> occurs_at t p s \<and> (\<forall>s'<s. \<not> occurs_at t p s')"
proof -
  let ?sf = "\<lparr>m_text = t, m_pattern = p, m_lastOccurrences = table_of p\<rparr>"
  from present obtain s0 where s0: "occurs_at t p s0"
    by (auto simp: sublist_iff_occurs)
  from present have "length p \<le> length t"
    by (rule sublist_length_le)
  with fit have fit_p: "length p < 2 ^ 31"
    by simp
  from low have "\<forall>c\<in>set t. low_byte c" by simp
  from search_built [OF this ne fit fit_p]
  obtain r where run: "search ?sf = Inr (r, ?sf)"
    and r: "if r = - 1 then \<forall>s. \<not> occurs_at t p s
         else 0 \<le> r \<and> occurs_at t p (nat r) \<and> (\<forall>s<nat r. \<not> occurs_at t p s)"
    by blast
  from r s0 have "0 \<le> r" "occurs_at t p (nat r)" "\<forall>s<nat r. \<not> occurs_at t p s"
    by (auto split: if_splits)
  moreover from run low have "construct_and_search t p = Inr (int (nat r))"
    using \<open>0 \<le> r\<close> by (simp add: construct_and_search_low)
  ultimately show ?thesis
    by blast
qed

theorem search_first_occurrence_witness:
  "construct_and_search ''Zack Berger is a student'' ''k Berger'' = Inr 3"
proof -
  have ne: "''k Berger'' \<noteq> []" by simp
  have low: "\<forall>c\<in>set ''Zack Berger is a student'' \<union> set ''k Berger''. low_byte c"
    by (simp add: low_byte_def)
  have fit: "length ''Zack Berger is a student'' < 2 ^ 31"
    by simp
  have present: "sublist ''k Berger'' ''Zack Berger is a student''"
    by code_simp
  from search_first_occurrence [OF ne low fit present]
  obtain s where s: "construct_and_search ''Zack Berger is a student'' ''k Berger'' = Inr (int s)"
    "occurs_at ''Zack Berger is a student'' ''k Berger'' s"
    "\<forall>s'<s. \<not> occurs_at ''Zack Berger is a student'' ''k Berger'' s'"
    by blast
  have "occurs_at ''Zack Berger is a student'' ''k Berger'' 3"
    by (simp add: occurs_at_def slice_def)
  with s(3) have "\<not> 3 < s" by blast
  moreover have "\<not> occurs_at ''Zack Berger is a student'' ''k Berger'' s'" if "s' < 3" for s'
  proof -
    from that have "s' = 0 \<or> s' = 1 \<or> s' = 2" by auto
    then show ?thesis by (auto simp: occurs_at_def slice_def)
  qed
  with s(2) have "\<not> s < 3" by blast
  ultimately have "s = 3" by simp
  with s(1) show ?thesis by simp
qed

text \<open>
  The claim as it was stated also covers the empty pattern, which is a substring of every
  text and stands at the offset 0: there \<open>search\<close> answers -1, by its first test. It also
  covers the text of \<open>2^31 + 1\<close> bytes \<open>a\<close>, where the pattern \<open>a\<close> stands at the offset 0:
  there the size of the text is negative as an \<^verbatim>\<open>int\<close> and \<open>search\<close> answers -1.
\<close>

theorem search_empty_pattern_is_substring:
  "sublist [] '''' \<and> occurs_at '''' [] 0 \<and> construct_and_search '''' [] = Inr (- 1)
   \<and> sublist ''a'' (replicate 2147483649 (CHR ''a''))
   \<and> occurs_at (replicate 2147483649 (CHR ''a'')) ''a'' 0
   \<and> construct_and_search (replicate 2147483649 (CHR ''a'')) ''a'' = Inr (- 1)"
proof -
  have small: "sublist [] '''' \<and> occurs_at '''' [] 0 \<and> construct_and_search '''' [] = Inr (- 1)"
    by (simp add: occurs_at_def slice_def construct_and_search_def new_StringFinder_low
        search_def size_to_int_0)
  have here: "occurs_at (replicate 2147483649 (CHR ''a'')) ''a'' 0"
    by (simp add: occurs_at_def slice_def)
  then have part: "sublist ''a'' (replicate 2147483649 (CHR ''a''))"
    unfolding sublist_iff_occurs ..
  have "\<forall>c\<in>set ''a''. low_byte c"
    by (simp add: low_byte_def)
  then have "construct_and_search (replicate 2147483649 (CHR ''a'')) ''a'' = Inr (- 1)"
    by (simp add: construct_and_search_low search_text_wrapped)
  with small here part show ?thesis
    by simp
qed

section \<open>The subscripts of the skip table\<close>

text \<open>
  A byte read as an unsigned value is a subscript of the table, whatever the byte. The
  subscript the program uses is the signed value, which is one exactly for the bytes
  below 0x80.
\<close>

lemma unsigned_byte_in_table: "0 \<le> int (of_char c) \<and> int (of_char c) < 256"
  using nat_of_char_less_256 [of c] by linarith

lemma low_byte_iff_index: "low_byte c \<longleftrightarrow> 0 \<le> char_to_int c \<and> char_to_int c < 256"
proof (cases "low_byte c")
  case True
  then show ?thesis
    by (simp add: char_to_int_low low_byte_def)
next
  case False
  with char_to_int_high [OF False] show ?thesis
    by simp
qed

lemma skip_table_low:
  assumes "\<forall>c\<in>set p. low_byte c" and "low_byte b"
  shows "\<exists>sf. new_StringFinder t p = Inr sf
     \<and> table_read (m_lastOccurrences sf) (char_to_int b) = Inr (last_index p b)"
proof -
  from assms(2) have "char_to_int b = int (of_char b)" "of_char b < (128 :: nat)"
    by (simp_all add: char_to_int_low low_byte_def)
  then have "table_read (table_of p) (char_to_int b) = Inr (last_index p b)"
    by (simp add: table_read_def table_of_nth)
  with new_StringFinder_low [OF assms(1)] show ?thesis
    by simp
qed

text \<open>
  C3. Every subscript of the skip table must lie in \<open>[0, 256)\<close> for every byte value.
  The subscript is the \<^verbatim>\<open>char\<close> itself, and a byte from 0x80 is a negative \<^verbatim>\<open>char\<close>: the
  byte 0xC3 (the first byte of a UTF-8 \<open>e\<close> with an accent) is the subscript -61. In the
  pattern it makes the write of the preprocessing leave the table; in the text it makes
  the lookup of the bad character leave it (there at the second alignment, after a
  shift by 2).
\<close>

theorem skip_table_index_out_of_bounds:
  "char_to_int (CHR 0xC3) = - 61
   \<and> new_StringFinder ''cafe'' [CHR 0xC3, CHR 0xA9] = Inl TableOutOfBounds
   \<and> construct_and_search [CHR ''c'', CHR ''a'', CHR ''f'', CHR 0xC3, CHR 0xA9] ''fe''
       = Inl TableOutOfBounds"
  by code_simp

text \<open>
  C8. After construction the entry of every byte value must be its last index in the
  pattern. For the pattern made of the byte 0xFF that index is 0, but the byte is the
  subscript -1: the preprocessing writes outside the table and no entry of the table
  records the byte. (Lemma \<open>skip_table_low\<close> above: for a pattern of bytes below 0x80 the
  entries of the bytes below 0x80 are right.)
\<close>

theorem skip_table_entry_high_byte:
  "last_index [CHR 0xFF] (CHR 0xFF) = 0
   \<and> char_to_int (CHR 0xFF) = - 1
   \<and> new_StringFinder ''abc'' [CHR 0xFF] = Inl TableOutOfBounds"
  by code_simp

section \<open>Replacing the pattern\<close>

text \<open>
  When \<open>search_new\<close> returns on an object (whose array has its 256 entries), the object
  is the one that the constructor builds from the text and the new pattern, and a plain
  \<open>search\<close> on it returns the same value again. It returns for the patterns of bytes below
  0x80 only.
\<close>

lemma search_new_on_return:
  "(new_StringFinder t p = Inr sf0 \<longrightarrow>
      m_pattern sf0 = p \<and> m_lastOccurrences sf0 = table_of p)
   \<and> (length (m_lastOccurrences sf) = 256 \<and> search_new sf newPattern = Inr (r, sf') \<longrightarrow>
        m_pattern sf' = newPattern
        \<and> m_lastOccurrences sf' = table_of newPattern
        \<and> new_StringFinder (m_text sf) newPattern = Inr sf'
        \<and> search sf' = Inr (r, sf')
        \<and> construct_and_search (m_text sf) newPattern = Inr r)"
proof (rule conjI; rule impI)
  assume "new_StringFinder t p = Inr sf0"
  from new_StringFinder_Inr [OF this]
  show "m_pattern sf0 = p \<and> m_lastOccurrences sf0 = table_of p"
    by simp
next
  assume "length (m_lastOccurrences sf) = 256 \<and> search_new sf newPattern = Inr (r, sf')"
  then have len: "length (m_lastOccurrences sf) = 256"
    and run: "search_new sf newPattern = Inr (r, sf')"
    by simp_all
  let ?sf1 = "sf\<lparr>m_pattern := newPattern\<rparr>"
  from run obtain sf2 where pre: "badCharacterPreprocessing ?sf1 = Inr sf2"
    and scan: "search sf2 = Inr (r, sf')"
    by (auto simp: search_new_def goodSuffixPreprocessing_def split: sum.splits)
  have low: "\<forall>c\<in>set newPattern. low_byte c"
  proof (rule ccontr)
    assume "\<not> (\<forall>c\<in>set newPattern. low_byte c)"
    then obtain c where "c \<in> set (m_pattern ?sf1)" "\<not> low_byte c"
      by auto
    with len have "badCharacterPreprocessing ?sf1 = Inl TableOutOfBounds"
      by (intro badCharacterPreprocessing_high) simp_all
    with pre show False by simp
  qed
  with len pre have sf2: "sf2 = sf\<lparr>m_pattern := newPattern, m_lastOccurrences := table_of newPattern\<rparr>"
    by (simp add: badCharacterPreprocessing_low)
  from scan have same: "sf' = sf2"
    by (rule search_returns_object)
  have fresh: "new_StringFinder (m_text sf) newPattern = Inr sf'"
    unfolding same sf2 by (simp add: new_StringFinder_low [OF low])
  from scan fresh have "construct_and_search (m_text sf) newPattern = Inr r"
    by (simp add: construct_and_search_def same)
  with scan fresh
  show "m_pattern sf' = newPattern
        \<and> m_lastOccurrences sf' = table_of newPattern
        \<and> new_StringFinder (m_text sf) newPattern = Inr sf'
        \<and> search sf' = Inr (r, sf')
        \<and> construct_and_search (m_text sf) newPattern = Inr r"
    unfolding same sf2 by simp
qed

lemma search_new_high:
  "length (m_lastOccurrences sf) = 256 \<Longrightarrow> c \<in> set newPattern \<Longrightarrow> \<not> low_byte c \<Longrightarrow>
     search_new sf newPattern = Inl TableOutOfBounds"
  using badCharacterPreprocessing_high [of "sf\<lparr>m_pattern := newPattern\<rparr>" c]
  by (simp add: search_new_def)

text \<open>
  C5. After \<open>search_new\<close> the table must be the table of the new pattern. For the new
  pattern made of the byte 0xFF the entry of that byte must be 0, its last index; the
  rebuild resets the 256 entries and then stores the index at the subscript -1, before
  the table: no entry of the table records the byte, and the call does not get to the
  scan.
\<close>

theorem search_new_high_byte_pattern:
  "last_index [CHR 0xFF] (CHR 0xFF) = 0
   \<and> search_new \<lparr>m_text = ''abc'', m_pattern = ''b'',
                   m_lastOccurrences = (replicate 256 (- 1))[98 := 0]\<rparr> [CHR 0xFF]
       = Inl TableOutOfBounds"
  by code_simp

text \<open>
  C10. \<open>search_new\<close> must change the pattern and the table only. For the new pattern
  made of the byte 0xF5 the rebuild stores the index 0 at the subscript -11, that is 44
  bytes before the table: outside the table, in the members that the class declares
  ahead of it, \<^verbatim>\<open>m_text\<close> first and \<^verbatim>\<open>m_pattern\<close> second.
\<close>

theorem search_new_stores_before_table:
  "char_to_int (CHR 0xF5) = - 11
   \<and> search_new \<lparr>m_text = ''Zack Berger'', m_pattern = ''Zack'',
                   m_lastOccurrences = (replicate 256 (- 1))[90 := 0, 97 := 1, 99 := 2, 107 := 3]\<rparr>
         [CHR 0xF5]
       = Inl TableOutOfBounds"
  by code_simp

section \<open>An absent pattern\<close>











section \<open>Progress and cost of the scan\<close>















end
